theory Spec2Isabelle
  imports Main
begin

section \<open>Data model\<close>

text \<open>
  The parser of \<^verbatim>\<open>lib/named-simple.js\<close> (the full variant, with the
  \<^verbatim>\<open>--help\<close>/\<^verbatim>\<open>--version\<close> short-circuit and the optional
  leading command) and the parser of the second source file (the reduced variant, without
  either) turn an array of string tokens into a plain object.

  A value stored in that object is a raw string, an array of raw strings (for a key
  pre-registered through \<^verbatim>\<open>allowMultiple\<close>) or the boolean of a short-circuit
  result. The object is modelled by its own properties, a finite map from keys to values;
  two objects are deeply equal when the maps are equal. Every key is treated as an ordinary
  own property: the model does not cover a converter that returns the accessor key
  \<^verbatim>\<open>__proto__\<close>, which the external \<^verbatim>\<open>camelcase\<close> package,
  stripping leading separators, does not return.
\<close>

datatype jsval = JStr string | JArr "string list" | JBool bool

type_synonym result = "string \<rightharpoonup> jsval"

text \<open>
  A thrown \<^verbatim>\<open>Error\<close>. Its message is a fixed template passed through the
  external \<^verbatim>\<open>tedent\<close> formatter; the model keeps which template it is and the
  values interpolated into it (a token and the array printed by
  \<^verbatim>\<open>JSON.stringify\<close>, or the command and the joined command list).
  \<^verbatim>\<open>err.id\<close> is the machine-readable kind; \<^verbatim>\<open>err.group\<close> is set
  by the full variant only.
\<close>

datatype message =
    NoCommandMessage
  | UnknownCommandMessage string "string list"
  | ExpectedToBeNamedMessage string "string list"
  | LastArgMessage string "string list"

record error =
  err_message :: message
  err_id :: string
  err_group :: "string option"

text \<open>
  The two source files have the same main loop and the same two throwing helpers, token for
  token, except that the helpers of the full variant also set
  \<^verbatim>\<open>err.group = 'cannot parse'\<close> (and word the message differently). The
  variant selects that field.
\<close>

datatype variant = Full | Reduced

definition cannotParse :: "variant \<Rightarrow> string option" where
  "cannotParse v = (case v of Full \<Rightarrow> Some ''cannot parse'' | Reduced \<Rightarrow> None)"

section \<open>Helper functions\<close>

text \<open>\<^verbatim>\<open>arg.startsWith('--')\<close>: the string begins with the given prefix.\<close>

definition startsWith :: "string \<Rightarrow> string \<Rightarrow> bool" where
  "startsWith s p = (take (length p) s = p)"

text \<open>
  \<^verbatim>\<open>throwExpectedToBeNamed(arg, allArgs)\<close> and
  \<^verbatim>\<open>throwLastArgCannotBeNamed(arg, allArgs)\<close>: the error each one throws.
  The array printed in the message is the array as it stands when the helper is called.
\<close>

definition throwExpectedToBeNamed :: "variant \<Rightarrow> string \<Rightarrow> string list \<Rightarrow> error" where
  "throwExpectedToBeNamed v arg allArgs =
     \<lparr>err_message = ExpectedToBeNamedMessage arg allArgs,
      err_id = ''expected to be named'',
      err_group = cannotParse v\<rparr>"

definition throwLastArgCannotBeNamed :: "variant \<Rightarrow> string \<Rightarrow> string list \<Rightarrow> error" where
  "throwLastArgCannotBeNamed v arg allArgs =
     \<lparr>err_message = LastArgMessage arg allArgs,
      err_id = ''last arg cannot be named'',
      err_group = cannotParse v\<rparr>"

text \<open>
  \<^verbatim>\<open>initResult(allowMultiple)\<close>: a reduce over the declared names that stores a
  fresh empty array under each camel-cased name. The converter \<open>camelcase\<close> is an
  external package and is a parameter of the model.
\<close>

definition initResult :: "(string \<Rightarrow> string) \<Rightarrow> string list \<Rightarrow> result" where
  "initResult camelcase allowMultiple =
     foldl (\<lambda>res arg. res(camelcase arg \<mapsto> JArr [])) Map.empty allowMultiple"

text \<open>
  \<^verbatim>\<open>handleCommand(allArgs, commands, result)\<close> mutates both the caller's array
  (\<^verbatim>\<open>allArgs.shift()\<close>) and the result object; the model returns the new
  contents of both, or the error thrown. With an empty \<open>commands\<close> it returns at once.
  \<^verbatim>\<open>allArgs[0]\<close> of an empty array is \<^verbatim>\<open>undefined\<close>, and the
  emptiness test comes before any use of it.
\<close>

definition handleCommand ::
  "string list \<Rightarrow> string list \<Rightarrow> result \<Rightarrow> error + (string list \<times> result)" where
  "handleCommand allArgs commands result =
     (if commands = [] then Inr (allArgs, result)
      else case allArgs of
        [] \<Rightarrow>
          Inl \<lparr>err_message = NoCommandMessage,
               err_id = ''no command given'',
               err_group = Some ''cannot parse''\<rparr>
      | theCommand # rest \<Rightarrow>
          if theCommand \<notin> set commands then
            Inl \<lparr>err_message = UnknownCommandMessage theCommand commands,
                 err_id = ''command given doesn't exist'',
                 err_group = Some ''cannot parse''\<rparr>
          else Inr (rest, result(''_command'' \<mapsto> JStr theCommand)))"

section \<open>The main loop\<close>

text \<open>
  The \<^verbatim>\<open>for\<close> loop of \<^verbatim>\<open>namedSimple\<close>, with its index \<open>i\<close> and
  the result object as arguments. Inside the loop \<open>i < length allArgs\<close>, so
  \<open>length allArgs - 1\<close> does not truncate, and \<open>i + 1\<close> is in range once \<open>i\<close> is not
  the last index. The body advances \<open>i\<close> once for the value and the loop header once more.
\<close>

function namedSimple_loop ::
  "variant \<Rightarrow> (string \<Rightarrow> string) \<Rightarrow> string list \<Rightarrow> nat \<Rightarrow> result \<Rightarrow> error + result" where
  "namedSimple_loop v camelcase allArgs i result =
     (if i < length allArgs then
        let arg = allArgs ! i in
        if \<not> startsWith arg ''--'' then Inl (throwExpectedToBeNamed v arg allArgs)
        else if i = length allArgs - 1 then Inl (throwLastArgCannotBeNamed v arg allArgs)
        else
          let key = camelcase arg;
              val = allArgs ! (i + 1)
          in namedSimple_loop v camelcase allArgs (i + 2)
               (case result key of
                  Some (JArr vals) \<Rightarrow> result(key \<mapsto> JArr (vals @ [val]))
                | _ \<Rightarrow> result(key \<mapsto> JStr val))
      else Inr result)"
  by pat_completeness auto
termination
  by (relation "measure (\<lambda>(v, camelcase, allArgs, i, result). length allArgs - i)") auto

declare namedSimple_loop.simps [simp del]

section \<open>The two parsers\<close>

text \<open>
  \<^verbatim>\<open>namedSimple\<close> of \<^verbatim>\<open>lib/named-simple.js\<close>. The first component of
  the value is the content of the caller's array when the call ends (by return or by
  throw), the second the outcome: the error thrown or the object returned.
\<close>

definition namedSimple ::
  "(string \<Rightarrow> string) \<Rightarrow> string list \<Rightarrow> string list \<Rightarrow> string list
     \<Rightarrow> string list \<times> (error + result)" where
  "namedSimple camelcase allArgs allowMultiple commands =
     (if ''--help'' \<in> set allArgs then (allArgs, Inr [''help'' \<mapsto> JBool True])
      else if ''--version'' \<in> set allArgs then (allArgs, Inr [''version'' \<mapsto> JBool True])
      else
        let result = initResult camelcase allowMultiple in
        case handleCommand allArgs commands result of
          Inl err \<Rightarrow> (allArgs, Inl err)
        | Inr (allArgs', result') \<Rightarrow>
            (allArgs', namedSimple_loop Full camelcase allArgs' 0 result'))"

text \<open>
  \<^verbatim>\<open>namedSimple\<close> of the second source file (the reduced variant). It never
  writes to the caller's array, so the model is a function of the array's content.
\<close>

definition namedSimple_reduced ::
  "(string \<Rightarrow> string) \<Rightarrow> string list \<Rightarrow> string list \<Rightarrow> error + result" where
  "namedSimple_reduced camelcase allArgs allowMultiple =
     namedSimple_loop Reduced camelcase allArgs 0 (initResult camelcase allowMultiple)"

section \<open>Auxiliary definitions for the proofs\<close>

text \<open>
  Lines 69-70 of \<^verbatim>\<open>lib/named-simple.js\<close> (62-63 of the reduced variant) as a
  function of the result object: push onto the array stored under the key, or set the key.
\<close>

definition storeArg :: "result \<Rightarrow> string \<Rightarrow> string \<Rightarrow> result" where
  "storeArg result key val =
     (case result key of
        Some (JArr vals) \<Rightarrow> result(key \<mapsto> JArr (vals @ [val]))
      | _ \<Rightarrow> result(key \<mapsto> JStr val))"

text \<open>
  The loop as a recursion over the tokens still to be read, two at a time; \<open>allArgs\<close>
  is the whole array, which the error messages print. Lemma \<open>loop_walk\<close> shows that
  the loop at index \<open>i\<close> computes \<open>walk\<close> on the tokens from \<open>i\<close> on.
\<close>

fun walk ::
  "variant \<Rightarrow> (string \<Rightarrow> string) \<Rightarrow> string list \<Rightarrow> string list \<Rightarrow> result \<Rightarrow> error + result" where
  "walk v camelcase allArgs [] result = Inr result"
| "walk v camelcase allArgs [arg] result =
     (if \<not> startsWith arg ''--'' then Inl (throwExpectedToBeNamed v arg allArgs)
      else Inl (throwLastArgCannotBeNamed v arg allArgs))"
| "walk v camelcase allArgs (arg # val # rest) result =
     (if \<not> startsWith arg ''--'' then Inl (throwExpectedToBeNamed v arg allArgs)
      else walk v camelcase allArgs rest (storeArg result (camelcase arg) val))"

text \<open>
  The values supplied for a key: the tokens at value positions whose name token
  camel-cases to the key, first to last.
\<close>

fun valuesFor :: "(string \<Rightarrow> string) \<Rightarrow> string \<Rightarrow> string list \<Rightarrow> string list" where
  "valuesFor camelcase key (arg # val # rest) =
     (if camelcase arg = key then val # valuesFor camelcase key rest
      else valuesFor camelcase key rest)"
| "valuesFor camelcase key rest = []"

text \<open>
  What a key holds after the loop, from what it held before and the values supplied for it:
  an array grows by all of them in order, anything else is replaced by the last one.
\<close>

definition stored :: "jsval option \<Rightarrow> string list \<Rightarrow> jsval option" where
  "stored init vals =
     (case init of
        Some (JArr xs) \<Rightarrow> Some (JArr (xs @ vals))
      | _ \<Rightarrow> if vals = [] then init else Some (JStr (last vals)))"

text \<open>
  Modelled from the spec: the upper-casing of the first letter of a segment, which the
  external package \<^verbatim>\<open>camelcase\<close> (not part of the repository) performs; here
  for ASCII letters.
\<close>

definition toUpperAscii :: "char \<Rightarrow> char" where
  "toUpperAscii c =
     (case map_of (zip ''abcdefghijklmnopqrstuvwxyz'' ''ABCDEFGHIJKLMNOPQRSTUVWXYZ'') c of
        Some u \<Rightarrow> u
      | None \<Rightarrow> c)"

text \<open>
  Modelled from the spec: "convert dash-separated segments to camelCase", the work of the
  external package \<^verbatim>\<open>camelcase\<close>. The flag says that a dash has just been
  dropped, so the next character starts a segment.
\<close>

fun camelSegments :: "bool \<Rightarrow> string \<Rightarrow> string" where
  "camelSegments up [] = []"
| "camelSegments up (c # cs) =
     (if c = CHR ''-'' then camelSegments True cs
      else (if up then toUpperAscii c else c) # camelSegments False cs)"

text \<open>
  Modelled from the spec: the dash-to-camel-case converter is the external package
  \<^verbatim>\<open>camelcase\<close>, which is not part of the repository; the spec describes it
  as "strip leading \<^verbatim>\<open>--\<close>, convert dash-separated segments to camelCase".
  This instance does that for ASCII names and is used only to run the parsers on concrete
  inputs; every general theorem holds for any converter.
\<close>

definition dashedToCamel :: "string \<Rightarrow> string" where
  "dashedToCamel s = camelSegments False (dropWhile (\<lambda>c. c = CHR ''-'') s)"

section \<open>Properties of the loop\<close>

lemma loop_walk:
  "i \<le> length ts \<Longrightarrow> namedSimple_loop v cc ts i r = walk v cc ts (drop i ts) r"
proof (induction v cc ts i r rule: namedSimple_loop.induct)
  case (1 v cc ts i r)
  show ?case
  proof (cases "i < length ts")
    case False
    with "1.prems" have "drop i ts = []" by simp
    with False show ?thesis by (simp add: namedSimple_loop.simps)
  next
    case True
    note lt = True
    have d1: "drop i ts = ts ! i # drop (Suc i) ts"
      using lt by (simp add: Cons_nth_drop_Suc)
    show ?thesis
    proof (cases "startsWith (ts ! i) ''--''")
      case False
      moreover have "namedSimple_loop v cc ts i r = Inl (throwExpectedToBeNamed v (ts ! i) ts)"
        using lt False by (subst namedSimple_loop.simps) (simp add: Let_def)
      ultimately show ?thesis
        using d1 by (cases "drop (Suc i) ts") simp_all
    next
      case True
      note sw = True
      show ?thesis
      proof (cases "i = length ts - 1")
        case True
        then have "drop (Suc i) ts = []" using lt by simp
        moreover have "namedSimple_loop v cc ts i r = Inl (throwLastArgCannotBeNamed v (ts ! i) ts)"
          using lt sw True by (subst namedSimple_loop.simps) (simp add: Let_def)
        ultimately show ?thesis
          using sw d1 by simp
      next
        case False
        then have lt2: "Suc i < length ts" using lt by arith
        have d2: "drop (Suc i) ts = ts ! (Suc i) # drop (i + 2) ts"
          using lt2 by (simp add: Cons_nth_drop_Suc)
        have step: "namedSimple_loop v cc ts i r =
            namedSimple_loop v cc ts (i + 2) (storeArg r (cc (ts ! i)) (ts ! (i + 1)))"
          using lt sw False
          by (subst namedSimple_loop.simps)
            (simp add: Let_def storeArg_def split: option.split jsval.split)
        have "namedSimple_loop v cc ts (i + 2) (storeArg r (cc (ts ! i)) (ts ! (i + 1)))
              = walk v cc ts (drop (i + 2) ts) (storeArg r (cc (ts ! i)) (ts ! (i + 1)))"
          unfolding storeArg_def
          by (rule "1.IH"[OF lt refl _ False refl refl]) (use sw lt2 in simp_all)
        with step show ?thesis
          using sw d1 d2 by simp
      qed
    qed
  qed
qed

lemma loop_walk0: "namedSimple_loop v cc ts 0 r = walk v cc ts ts r"
  using loop_walk[of 0 ts v cc r] by simp

lemma names_Cons2:
  "(\<forall>i<length (a # b # rest). even i \<longrightarrow> P ((a # b # rest) ! i)) \<longleftrightarrow>
     P a \<and> (\<forall>i<length rest. even i \<longrightarrow> P (rest ! i))"
proof
  assume h: "\<forall>i<length (a # b # rest). even i \<longrightarrow> P ((a # b # rest) ! i)"
  have "P a" using h by force
  moreover have "P (rest ! i)" if "i < length rest" "even i" for i
    using h[rule_format, of "Suc (Suc i)"] that by simp
  ultimately show "P a \<and> (\<forall>i<length rest. even i \<longrightarrow> P (rest ! i))" by blast
next
  assume h: "P a \<and> (\<forall>i<length rest. even i \<longrightarrow> P (rest ! i))"
  show "\<forall>i<length (a # b # rest). even i \<longrightarrow> P ((a # b # rest) ! i)"
  proof (intro allI impI)
    fix i assume "i < length (a # b # rest)" "even i"
    then show "P ((a # b # rest) ! i)"
      using h by (cases i; cases "i - 1") auto
  qed
qed

lemma storeArg_lookup:
  "storeArg r key val k =
     (if k = key then (case r key of Some (JArr xs) \<Rightarrow> Some (JArr (xs @ [val])) | _ \<Rightarrow> Some (JStr val))
      else r k)"
  by (simp add: storeArg_def split: option.split jsval.split)

lemma walk_lookup:
  "walk v cc all ts r0 = Inr r \<Longrightarrow> r k = stored (r0 k) (valuesFor cc k ts)"
proof (induction v cc all ts r0 rule: walk.induct)
  case (1 v cc all r0)
  then show ?case by (simp add: stored_def split: option.split jsval.split)
next
  case (2 v cc all arg r0)
  then show ?case by (simp split: if_splits)
next
  case (3 v cc all arg val rest r0)
  from "3.prems" have sw: "startsWith arg ''--''"
    and w: "walk v cc all rest (storeArg r0 (cc arg) val) = Inr r"
    by (simp_all split: if_splits)
  have "r k = stored (storeArg r0 (cc arg) val k) (valuesFor cc k rest)"
    using "3.IH" sw w by simp
  then show ?case
    by (simp add: storeArg_lookup stored_def split: option.split jsval.split)
qed

lemma walk_success:
  "even (length ts) \<Longrightarrow> \<forall>i<length ts. even i \<longrightarrow> startsWith (ts ! i) ''--'' \<Longrightarrow>
     \<exists>r. walk v cc all ts r0 = Inr r"
proof (induction v cc all ts r0 rule: walk.induct)
  case (3 v cc all arg val rest r0)
  from "3.prems"(2) names_Cons2[of arg val rest "\<lambda>t. startsWith t ''--''"]
  have "startsWith arg ''--''"
    and "\<forall>i<length rest. even i \<longrightarrow> startsWith (rest ! i) ''--''"
    by blast+
  then show ?case using "3.IH" "3.prems"(1) by simp
qed simp_all



lemma walk_upd_commute:
  "\<forall>i<length ts. even i \<longrightarrow> cc (ts ! i) \<noteq> k \<Longrightarrow>
     walk v cc all ts (r0(k \<mapsto> x)) = map_sum id (\<lambda>r. r(k \<mapsto> x)) (walk v cc all ts r0)"
proof (induction v cc all ts r0 rule: walk.induct)
  case (3 v cc all arg val rest r0)
  from "3.prems" names_Cons2[of arg val rest "\<lambda>t. cc t \<noteq> k"]
  have ne: "cc arg \<noteq> k" and rest: "\<forall>i<length rest. even i \<longrightarrow> cc (rest ! i) \<noteq> k"
    by blast+
  have eq: "storeArg (r0(k \<mapsto> x)) (cc arg) val = (storeArg r0 (cc arg) val)(k \<mapsto> x)"
    using ne by (auto simp: storeArg_def fun_upd_twist split: option.split jsval.split)
  show ?case
  proof (cases "startsWith arg ''--''")
    case True
    have "walk v cc all (arg # val # rest) (r0(k \<mapsto> x)) =
            walk v cc all rest ((storeArg r0 (cc arg) val)(k \<mapsto> x))"
      using True eq by simp
    also have "\<dots> = map_sum id (\<lambda>r. r(k \<mapsto> x)) (walk v cc all rest (storeArg r0 (cc arg) val))"
      using True rest by (intro "3.IH") simp_all
    also have "\<dots> = map_sum id (\<lambda>r. r(k \<mapsto> x)) (walk v cc all (arg # val # rest) r0)"
      using True by simp
    finally show ?thesis .
  next
    case False
    then show ?thesis by simp
  qed
qed simp_all





section \<open>The parsers in terms of the loop\<close>

lemma namedSimple_reduced_walk:
  "namedSimple_reduced cc ts am = walk Reduced cc ts ts (initResult cc am)"
  by (simp add: namedSimple_reduced_def loop_walk0)

lemma namedSimple_walk:
  "''--help'' \<notin> set allArgs \<Longrightarrow> ''--version'' \<notin> set allArgs \<Longrightarrow>
   handleCommand allArgs commands (initResult cc am) = Inr (ts, r0) \<Longrightarrow>
     namedSimple cc allArgs am commands = (ts, walk Full cc ts ts r0)"
  by (simp add: namedSimple_def loop_walk0)




section \<open>Short-circuit and command extraction\<close>

text \<open>
  Claim C1. Whenever the token sequence of the full variant contains the token
  \<^verbatim>\<open>--help\<close> anywhere, the parser returns exactly the object
  \<^verbatim>\<open>{ help: true }\<close>: no key pre-seeded from \<open>allowMultiple\<close>, no command
  key, and no failure, whatever the other tokens and the command set are. The caller's array
  is left as it was.
\<close>

theorem help_short_circuit:
  "''--help'' \<in> set allArgs \<Longrightarrow>
     namedSimple camelcase allArgs allowMultiple commands =
       (allArgs, Inr [''help'' \<mapsto> JBool True])"
  by (simp add: namedSimple_def)

theorem help_short_circuit_witness:
  "namedSimple dashedToCamel [''positional'', ''--x'', ''--help''] [''--name''] [''run''] =
     ([''positional'', ''--x'', ''--help''], Inr [''help'' \<mapsto> JBool True])"
  using help_short_circuit
    [of "[''positional'', ''--x'', ''--help'']" dashedToCamel "[''--name'']" "[''run'']"]
  by simp

text \<open>
  Claim C8. In the full variant, a token sequence that contains \<^verbatim>\<open>--version\<close>
  and not \<^verbatim>\<open>--help\<close> yields exactly \<^verbatim>\<open>{ version: true }\<close>; when
  both are present, \<^verbatim>\<open>--help\<close> wins and the result is
  \<^verbatim>\<open>{ help: true }\<close>.
\<close>

theorem version_short_circuit:
  "(''--version'' \<in> set allArgs \<and> ''--help'' \<notin> set allArgs \<longrightarrow>
      namedSimple camelcase allArgs allowMultiple commands =
        (allArgs, Inr [''version'' \<mapsto> JBool True])) \<and>
   (''--version'' \<in> set allArgs \<and> ''--help'' \<in> set allArgs \<longrightarrow>
      namedSimple camelcase allArgs allowMultiple commands =
        (allArgs, Inr [''help'' \<mapsto> JBool True]))"
  by (simp add: namedSimple_def)

theorem version_short_circuit_witness:
  "namedSimple dashedToCamel [''positional'', ''--version''] [''--name''] [''run''] =
     ([''positional'', ''--version''], Inr [''version'' \<mapsto> JBool True]) \<and>
   namedSimple dashedToCamel [''--version'', ''--help''] [] [] =
     ([''--version'', ''--help''], Inr [''help'' \<mapsto> JBool True])"
  using version_short_circuit
    [of "[''positional'', ''--version'']" dashedToCamel "[''--name'']" "[''run'']"]
    version_short_circuit [of "[''--version'', ''--help'']" dashedToCamel "[]" "[]"]
  by simp

text \<open>
  Claim C6. In the full variant with a non-empty command set and neither
  \<^verbatim>\<open>--help\<close> nor \<^verbatim>\<open>--version\<close> among the tokens: an empty token
  sequence fails with the error whose id is \<^verbatim>\<open>no command given\<close>; a first token
  outside the command set fails with the error whose id is
  \<^verbatim>\<open>command given doesn't exist\<close>, and its message carries that token and the
  whole command set.
\<close>

theorem command_errors:
  assumes "commands \<noteq> []" "''--help'' \<notin> set allArgs" "''--version'' \<notin> set allArgs"
  shows "(allArgs = [] \<longrightarrow>
            namedSimple camelcase allArgs allowMultiple commands =
              ([], Inl \<lparr>err_message = NoCommandMessage,
                        err_id = ''no command given'',
                        err_group = Some ''cannot parse''\<rparr>)) \<and>
         (\<forall>theCommand rest. allArgs = theCommand # rest \<and> theCommand \<notin> set commands \<longrightarrow>
            namedSimple camelcase allArgs allowMultiple commands =
              (allArgs, Inl \<lparr>err_message = UnknownCommandMessage theCommand commands,
                             err_id = ''command given doesn't exist'',
                             err_group = Some ''cannot parse''\<rparr>))"
  using assms by (auto simp: namedSimple_def handleCommand_def)

theorem command_errors_witness:
  "namedSimple dashedToCamel [] [] [''run'', ''build''] =
     ([], Inl \<lparr>err_message = NoCommandMessage,
               err_id = ''no command given'',
               err_group = Some ''cannot parse''\<rparr>) \<and>
   namedSimple dashedToCamel [''deploy''] [] [''run'', ''build''] =
     ([''deploy''], Inl \<lparr>err_message = UnknownCommandMessage ''deploy'' [''run'', ''build''],
                          err_id = ''command given doesn't exist'',
                          err_group = Some ''cannot parse''\<rparr>)"
  using command_errors [of "[''run'', ''build'']" "[]" dashedToCamel "[]"]
    command_errors [of "[''run'', ''build'']" "[''deploy'']" dashedToCamel "[]"]
  by simp

text \<open>
  Claim C7, as stated, fails when \<^verbatim>\<open>--help\<close> or
  \<^verbatim>\<open>--version\<close> is among the tokens: the short-circuit returns before
  \<^verbatim>\<open>handleCommand\<close> runs, so a valid first command is neither stored under
  \<^verbatim>\<open>_command\<close> nor removed from the array.
\<close>

theorem command_extracted_counterexample:
  "namedSimple dashedToCamel [''run'', ''--force'', ''x'', ''--help''] [] [''run'', ''build''] =
     ([''run'', ''--force'', ''x'', ''--help''], Inr [''help'' \<mapsto> JBool True]) \<and>
   [''help'' \<mapsto> JBool True] ''_command'' = None"
  by (simp add: namedSimple_def)

text \<open>
  Claim C7, amended. In the full variant with a non-empty command set, no
  \<^verbatim>\<open>--help\<close> and no \<^verbatim>\<open>--version\<close> among the tokens, and a first
  token that is one of the commands: the token is removed from the sequence, it is stored
  under the key \<^verbatim>\<open>_command\<close> before the main loop starts, and the loop runs
  on the remaining tokens only. When no remaining token at a name position camel-cases to
  \<^verbatim>\<open>_command\<close>, the outcome is the outcome of parsing the remaining tokens
  without a command set, with the \<^verbatim>\<open>_command\<close> entry added on success. The
  instance that follows the theorem is Example 3 of the specification.
\<close>

theorem command_extracted:
  assumes "commands \<noteq> []" "theCommand \<in> set commands"
    and "''--help'' \<notin> set (theCommand # rest)" "''--version'' \<notin> set (theCommand # rest)"
  shows "fst (namedSimple camelcase (theCommand # rest) allowMultiple commands) = rest \<and>
         snd (namedSimple camelcase (theCommand # rest) allowMultiple commands) =
           namedSimple_loop Full camelcase rest 0
             ((initResult camelcase allowMultiple)(''_command'' \<mapsto> JStr theCommand)) \<and>
         ((\<forall>i<length rest. even i \<longrightarrow> camelcase (rest ! i) \<noteq> ''_command'') \<longrightarrow>
            snd (namedSimple camelcase (theCommand # rest) allowMultiple commands) =
              (case snd (namedSimple camelcase rest allowMultiple []) of
                 Inl err \<Rightarrow> Inl err
               | Inr result \<Rightarrow> Inr (result(''_command'' \<mapsto> JStr theCommand))))"
proof -
  let ?r = "initResult camelcase allowMultiple"
  have hc: "handleCommand (theCommand # rest) commands ?r =
              Inr (rest, ?r(''_command'' \<mapsto> JStr theCommand))"
    using assms(1,2) by (simp add: handleCommand_def)
  have full: "namedSimple camelcase (theCommand # rest) allowMultiple commands =
                (rest, walk Full camelcase rest rest (?r(''_command'' \<mapsto> JStr theCommand)))"
    using assms(3,4) hc by (intro namedSimple_walk) simp_all
  have none: "namedSimple camelcase rest allowMultiple [] = (rest, walk Full camelcase rest rest ?r)"
    using assms(3,4) by (intro namedSimple_walk) (simp_all add: handleCommand_def)
  have "walk Full camelcase rest rest (?r(''_command'' \<mapsto> JStr theCommand)) =
          (case walk Full camelcase rest rest ?r of
             Inl err \<Rightarrow> Inl err
           | Inr result \<Rightarrow> Inr (result(''_command'' \<mapsto> JStr theCommand)))"
    if "\<forall>i<length rest. even i \<longrightarrow> camelcase (rest ! i) \<noteq> ''_command''"
    using walk_upd_commute[OF that, of Full rest ?r "JStr theCommand"]
    by (simp split: sum.split)
  then show ?thesis
    using full none by (simp add: loop_walk0)
qed

theorem command_extracted_witness:
  "namedSimple dashedToCamel [''run'', ''--force'', ''x''] [] [''run'', ''build''] =
     ([''--force'', ''x''], Inr [''_command'' \<mapsto> JStr ''run'', ''force'' \<mapsto> JStr ''x''])"
proof -
  have none: "snd (namedSimple dashedToCamel [''--force'', ''x''] [] []) =
          Inr [''force'' \<mapsto> JStr ''x'']"
    by (simp add: namedSimple_def handleCommand_def initResult_def namedSimple_loop.simps
        startsWith_def dashedToCamel_def Let_def)
  have key: "\<forall>i<length [''--force'', ''x''].
      even i \<longrightarrow> dashedToCamel ([''--force'', ''x''] ! i) \<noteq> ''_command''"
    by (simp add: dashedToCamel_def less_Suc_eq)
  have p: "[''run'', ''build''] \<noteq> []" "''run'' \<in> set [''run'', ''build'']"
    "''--help'' \<notin> set [''run'', ''--force'', ''x'']"
    "''--version'' \<notin> set [''run'', ''--force'', ''x'']"
    by simp_all
  note ce = command_extracted [OF p, of dashedToCamel "[]"]
  from ce have "fst (namedSimple dashedToCamel [''run'', ''--force'', ''x''] [] [''run'', ''build''])
          = [''--force'', ''x'']"
    by (rule conjunct1)
  moreover from ce key have
    "snd (namedSimple dashedToCamel [''run'', ''--force'', ''x''] [] [''run'', ''build'']) =
       (case snd (namedSimple dashedToCamel [''--force'', ''x''] [] []) of
          Inl err \<Rightarrow> Inl err
        | Inr result \<Rightarrow> Inr (result(''_command'' \<mapsto> JStr ''run'')))"
    by blast
  then have "snd (namedSimple dashedToCamel [''run'', ''--force'', ''x''] [] [''run'', ''build''])
          = Inr ([''force'' \<mapsto> JStr ''x''](''_command'' \<mapsto> JStr ''run''))"
    by (simp only: none sum.case)
  moreover have "[''force'' \<mapsto> JStr ''x''](''_command'' \<mapsto> JStr ''run'') =
                   [''_command'' \<mapsto> JStr ''run'', ''force'' \<mapsto> JStr ''x'']"
    by (rule fun_upd_twist) simp
  ultimately show ?thesis
    by (simp add: prod_eq_iff)
qed

section \<open>Failures of the main loop\<close>







section \<open>Values and keys of the result\<close>

text \<open>
  Claim C10, as stated, fails in the full variant for the two short-circuit tokens: a value
  token \<^verbatim>\<open>--help\<close> (or \<^verbatim>\<open>--version\<close>) is found by the
  \<^verbatim>\<open>includes\<close> test and the parser returns the short-circuit object instead of
  storing it under the preceding name.
\<close>

theorem value_not_inspected_counterexample:
  "namedSimple dashedToCamel [''--a'', ''--help''] [] [] =
     ([''--a'', ''--help''], Inr [''help'' \<mapsto> JBool True]) \<and>
   startsWith ''--a'' ''--'' \<and>
   [''help'' \<mapsto> JBool True] (dashedToCamel ''--a'') = None"
  by (simp add: namedSimple_def startsWith_def dashedToCamel_def)

text \<open>
  Claim C10, amended. In the reduced variant always, and in the full variant when no token
  is \<^verbatim>\<open>--help\<close> or \<^verbatim>\<open>--version\<close>, the tokens at value positions
  are never validated: when the sequence the loop runs over has even length and every token
  at a name position begins with \<^verbatim>\<open>--\<close>, parsing succeeds whatever the value
  tokens are, and every key holds the value tokens supplied for it as they are (appended to
  its array, or the last one as its string). In particular a value may itself begin with
  \<^verbatim>\<open>--\<close>: the tokens \<^verbatim>\<open>["--a", "--b"]\<close> parse to
  \<^verbatim>\<open>{ a: "--b" }\<close>.
\<close>

theorem value_not_inspected:
  assumes "even (length ts)"
    and "\<forall>i<length ts. even i \<longrightarrow> startsWith (ts ! i) ''--''"
  shows "(\<exists>r. namedSimple_reduced camelcase ts allowMultiple = Inr r \<and>
              (\<forall>key. r key =
                 stored (initResult camelcase allowMultiple key) (valuesFor camelcase key ts))) \<and>
         (''--help'' \<notin> set allArgs \<and> ''--version'' \<notin> set allArgs \<and>
          handleCommand allArgs commands (initResult camelcase allowMultiple) = Inr (ts, result)
          \<longrightarrow>
            (\<exists>r. namedSimple camelcase allArgs allowMultiple commands = (ts, Inr r) \<and>
                 (\<forall>key. r key = stored (result key) (valuesFor camelcase key ts))))"
proof -
  have w: "\<exists>r. walk v camelcase ts ts r0 = Inr r \<and>
             (\<forall>key. r key = stored (r0 key) (valuesFor camelcase key ts))" for v r0
  proof -
    from walk_success[OF assms, of v camelcase ts r0]
    obtain r where r: "walk v camelcase ts ts r0 = Inr r" by blast
    then have "r key = stored (r0 key) (valuesFor camelcase key ts)" for key
      by (rule walk_lookup)
    with r show ?thesis by blast
  qed
  show ?thesis
    using w by (simp add: namedSimple_reduced_walk namedSimple_walk)
qed

theorem value_not_inspected_witness:
  "namedSimple_reduced dashedToCamel [''--a'', ''--b''] [] = Inr [''a'' \<mapsto> JStr ''--b''] \<and>
   namedSimple dashedToCamel [''--a'', ''--b''] [] [] =
     ([''--a'', ''--b''], Inr [''a'' \<mapsto> JStr ''--b''])"
proof -
  have p: "even (length [''--a'', ''--b''])"
    "\<forall>i<length [''--a'', ''--b'']. even i \<longrightarrow> startsWith ([''--a'', ''--b''] ! i) ''--''"
    by (simp_all add: startsWith_def less_Suc_eq)
  have a: "dashedToCamel ''--a'' = ''a''"
    by (simp add: dashedToCamel_def)
  have s: "stored (Map.empty key) (valuesFor dashedToCamel key [''--a'', ''--b'']) =
             [''a'' \<mapsto> JStr ''--b''] key" for key
    by (simp add: a stored_def)
  from value_not_inspected [OF p, of dashedToCamel "[]" "[''--a'', ''--b'']" "[]" Map.empty]
  obtain r1 r2 where
    r1: "namedSimple_reduced dashedToCamel [''--a'', ''--b''] [] = Inr r1"
      "\<And>key. r1 key = stored (Map.empty key) (valuesFor dashedToCamel key [''--a'', ''--b''])"
    and r2: "namedSimple dashedToCamel [''--a'', ''--b''] [] [] = ([''--a'', ''--b''], Inr r2)"
      "\<And>key. r2 key = stored (Map.empty key) (valuesFor dashedToCamel key [''--a'', ''--b''])"
    by (auto simp: handleCommand_def initResult_def)
  have "r1 = [''a'' \<mapsto> JStr ''--b'']"
    by (rule ext) (simp only: r1(2) s)
  moreover have "r2 = [''a'' \<mapsto> JStr ''--b'']"
    by (rule ext) (simp only: r2(2) s)
  ultimately have "r1 = [''a'' \<mapsto> JStr ''--b'']" "r2 = [''a'' \<mapsto> JStr ''--b'']"
    by simp_all
  with r1(1) r2(1) show ?thesis by simp
qed




section \<open>The caller's array and repeated calls\<close>

text \<open>
  Claim C3, as stated, fails when a command is extracted: \<^verbatim>\<open>handleCommand\<close>
  shifts the caller's own array, so after the call the first token is gone.
\<close>

theorem caller_array_counterexample:
  "fst (namedSimple dashedToCamel [''run'', ''--force'', ''x''] [] [''run'', ''build'']) =
     [''--force'', ''x''] \<and>
   fst (namedSimple dashedToCamel [''run'', ''--force'', ''x''] [] [''run'', ''build'']) \<noteq>
     [''run'', ''--force'', ''x'']"
  by (simp add: namedSimple_def handleCommand_def initResult_def)

text \<open>
  Claim C3, amended. After a call of the full variant the caller's array holds the same
  elements in the same order as before on every path but one: when no token is
  \<^verbatim>\<open>--help\<close> or \<^verbatim>\<open>--version\<close>, the command set is non-empty and
  the first token is one of the commands, the first element has been removed and the
  others keep their order, whether the main loop then succeeds or throws. The reduced
  variant contains no write to the array at all.
\<close>

theorem caller_array_after_call:
  "fst (namedSimple camelcase allArgs allowMultiple commands) =
     (if ''--help'' \<notin> set allArgs \<and> ''--version'' \<notin> set allArgs \<and> commands \<noteq> [] \<and>
         allArgs \<noteq> [] \<and> hd allArgs \<in> set commands
      then tl allArgs else allArgs)"
  by (simp add: namedSimple_def handleCommand_def Let_def split: list.split)

theorem caller_array_after_call_witness:
  "fst (namedSimple dashedToCamel [''deploy'', ''--a''] [] [''run'']) = [''deploy'', ''--a''] \<and>
   fst (namedSimple dashedToCamel [''run'', ''--help''] [] [''run'']) = [''run'', ''--help''] \<and>
   fst (namedSimple dashedToCamel [''run'', ''--a''] [] [''run'']) = [''--a'']"
  using caller_array_after_call [of dashedToCamel "[''deploy'', ''--a'']" "[]" "[''run'']"]
    caller_array_after_call [of dashedToCamel "[''run'', ''--help'']" "[]" "[''run'']"]
    caller_array_after_call [of dashedToCamel "[''run'', ''--a'']" "[]" "[''run'']"]
  by simp




end
